theory Spec2Isabelle
  imports Complex_Main
begin

section \<open>Shallow embedding of \<open>src/tuner.py\<close>\<close>

text \<open>
  The tuner is a single Python module. Its numeric values are NumPy doubles; they are
  modelled here as \<^typ>\<open>real\<close>, so rounding is not part of the model. One-dimensional
  arrays are lists. Every place where Python or NumPy raises is a branch that yields a
  \<open>py_error\<close>.
\<close>

datatype py_error = IndexError | ValueError | KeyError

subsection \<open>Reference table and note resolution (lines 16--31)\<close>

text \<open>\<open>STRINGS\<close> is a dict literal; a dict keeps insertion order, so it is an association list.\<close>

definition STRINGS :: "(string \<times> real) list" where
  "STRINGS =
     [(''Low E'', 82.41), (''A'', 110.00), (''D'', 146.83),
      (''G'', 196.00), (''B'', 246.94), (''High E'', 329.63)]"

text \<open>
  \<open>cents_diff\<close>: \<open>(1200 * np.log2(f_meas / f_target)) / 10\<close>. It is only called with both
  arguments positive (line 218).
\<close>

definition cents_diff :: "real \<Rightarrow> real \<Rightarrow> real" where
  "cents_diff f_meas f_target = (1200 * log 2 (f_meas / f_target)) / 10"

text \<open>
  Python's \<open>min(d, key=d.get)\<close> walks the keys in order and replaces the current best only
  when a strictly smaller key value turns up, so the first of several minima wins.
  \<open>min\<close> of an empty iterable raises \<open>ValueError\<close>.
\<close>

fun py_min_from :: "('a \<times> real) \<Rightarrow> ('a \<times> real) list \<Rightarrow> 'a \<times> real" where
  "py_min_from best [] = best"
| "py_min_from best (x # xs) =
     (if snd x < snd best then py_min_from x xs else py_min_from best xs)"

definition py_min_key :: "('a \<times> real) list \<Rightarrow> py_error + 'a" where
  "py_min_key items =
     (case items of [] \<Rightarrow> Inl ValueError | x # xs \<Rightarrow> Inr (fst (py_min_from x xs)))"

definition freq_to_string :: "real \<Rightarrow> py_error + (string \<times> real)" where
  "freq_to_string freq =
     (let diffs = map (\<lambda>(note, f). (note, \<bar>freq - f\<bar>)) STRINGS in
      case py_min_key diffs of
        Inl e \<Rightarrow> Inl e
      | Inr name \<Rightarrow>
          (case map_of STRINGS name of
             None \<Rightarrow> Inl KeyError
           | Some target \<Rightarrow> Inr (name, target)))"

subsection \<open>Pitch estimation by autocorrelation (lines 81--90)\<close>

definition np_mean :: "real list \<Rightarrow> real" where
  "np_mean xs = sum_list xs / real (length xs)"

text \<open>
  \<open>np.correlate(a, v, mode='full')\<close> for real arrays: entry \<open>j\<close> is the sum of
  \<open>a[n + k] * v[n]\<close> at lag \<open>k = j - (len(v) - 1)\<close>, over the \<open>n\<close> for which both indices
  exist; there are \<open>len(a) + len(v) - 1\<close> entries.
\<close>

definition np_correlate_full :: "real list \<Rightarrow> real list \<Rightarrow> real list" where
  "np_correlate_full a v =
     map (\<lambda>j. if j < length v - 1
               then sum_list (map2 (*) a (drop (length v - 1 - j) v))
               else sum_list (map2 (*) (drop (j - (length v - 1)) a) v))
         [0 ..< length a + length v - 1]"

text \<open>\<open>np.diff\<close>: \<open>d[i] = c[i + 1] - c[i]\<close>.\<close>

definition np_diff :: "real list \<Rightarrow> real list" where
  "np_diff c = map2 (-) (tl c) c"

text \<open>\<open>np.where(d > 0)[0]\<close>: the indices of the positive entries, ascending.\<close>

definition where_pos :: "real list \<Rightarrow> nat list" where
  "where_pos d = filter (\<lambda>i. d ! i > 0) [0 ..< length d]"

text \<open>\<open>np.argmax\<close>: the first index of the largest entry; \<open>ValueError\<close> on an empty array.\<close>

fun argmax_from :: "nat \<Rightarrow> real \<Rightarrow> nat \<Rightarrow> real list \<Rightarrow> nat" where
  "argmax_from best bv i [] = best"
| "argmax_from best bv i (v # vs) =
     (if v > bv then argmax_from i v (Suc i) vs else argmax_from best bv (Suc i) vs)"

definition np_argmax :: "real list \<Rightarrow> py_error + nat" where
  "np_argmax xs = (case xs of [] \<Rightarrow> Inl ValueError | v # vs \<Rightarrow> Inr (argmax_from 0 v 1 vs))"

text \<open>
  Lines 82--84: the mean-removed signal, its full autocorrelation, and the half from
  index \<open>len(corr) // 2\<close> on (lag 0 first).
\<close>

definition autocorr :: "real list \<Rightarrow> real list" where
  "autocorr x =
     (let xm = map (\<lambda>v. v - np_mean x) x;
          corr = np_correlate_full xm xm
      in drop (length corr div 2) corr)"

text \<open>
  \<open>detect_frequency_autocorr\<close>. \<open>np.correlate\<close> refuses empty arguments with
  \<open>ValueError\<close>; \<open>np.where(d > 0)[0][0]\<close> raises \<open>IndexError\<close> when no entry of \<open>d\<close> is
  positive.
\<close>

definition detect_frequency_autocorr :: "real list \<Rightarrow> real \<Rightarrow> py_error + real" where
  "detect_frequency_autocorr x fs =
     (if x = [] then Inl ValueError
      else
        let corr = autocorr x;
            d = np_diff corr
        in case where_pos d of
             [] \<Rightarrow> Inl IndexError
           | start # _ \<Rightarrow>
               (case np_argmax (drop start corr) of
                  Inl e \<Rightarrow> Inl e
                | Inr m \<Rightarrow>
                    (let peak = m + start
                     in if peak = 0 then Inr 0 else Inr (fs / real peak))))"

subsection \<open>The filter library\<close>

text \<open>
  \<open>scipy.signal\<close> is not part of the repository. The three calls the tuner makes with its
  fixed \<open>self.sos\<close> are parameters of the model: \<open>sosfilt_zi(self.sos)\<close> (the steady-state
  initial condition, flattened to a list), \<open>sosfilt(self.sos, x, zi=z)\<close>, which the source
  guards with an exception handler and which is therefore allowed to fail (\<open>None\<close>), and the stateless
  \<open>sosfilt(self.sos, x)\<close>.
\<close>

record dsp =
  sosfilt_zi :: "real list"
  sosfilt_with_zi :: "real list \<Rightarrow> real list \<Rightarrow> (real list \<times> real list) option"
  sosfilt_plain :: "real list \<Rightarrow> real list"

subsection \<open>The \<open>LiveTuner\<close> object\<close>

text \<open>
  The fields of \<open>LiveTuner\<close> that the processing reads or writes. \<open>q\<close> is the queue of
  blocks, oldest first. The figures, canvases and the device table belong to the GUI and
  the audio library and are left out.
\<close>

record tuner =
  fs :: real
  q :: "real list list"
  running :: bool
  last_note :: "string option"
  note_counter :: int
  zi :: "real list"
  freq_history :: "real list"

text \<open>\<open>self.note_confirm_threshold\<close> is set to 3 in \<open>__init__\<close> and never assigned again.\<close>

definition note_confirm_threshold :: int where
  "note_confirm_threshold = 3"

text \<open>\<open>__init__\<close> (lines 97--120).\<close>

definition init :: "dsp \<Rightarrow> real \<Rightarrow> tuner" where
  "init lib rate =
     \<lparr>fs = rate, q = [], running = False, last_note = None, note_counter = 0,
      zi = sosfilt_zi lib, freq_history = []\<rparr>"

text \<open>\<open>audio_callback\<close> (lines 122--124): a block is queued unless a status flag is set.\<close>

definition audio_callback :: "tuner \<Rightarrow> real list \<Rightarrow> bool \<Rightarrow> tuner" where
  "audio_callback t indata status = (if \<not> status then t\<lparr>q := q t @ [indata]\<rparr> else t)"

text \<open>
  \<open>start\<close> (lines 126--141). Opening the input stream is the audio library's business; the
  argument says whether it succeeded. A failure is caught and printed.
\<close>

definition start :: "bool \<Rightarrow> tuner \<Rightarrow> tuner" where
  "start device_ok t =
     (if running t then t else if device_ok then t\<lparr>running := True\<rparr> else t)"

text \<open>\<open>stop\<close> (lines 143--155).\<close>

definition stop :: "dsp \<Rightarrow> tuner \<Rightarrow> tuner" where
  "stop lib t =
     (if \<not> running t then t
      else t\<lparr>running := False, q := [], zi := sosfilt_zi lib, freq_history := []\<rparr>)"

subsection \<open>\<open>poll\<close> (lines 157--224)\<close>

type_synonym reading = "string \<times> real \<times> real"

text \<open>\<open>np.max(np.abs(arr))\<close> (line 164); \<open>np.max\<close> of an empty array raises \<open>ValueError\<close>.\<close>

definition np_max_abs :: "real list \<Rightarrow> py_error + real" where
  "np_max_abs arr =
     (case arr of [] \<Rightarrow> Inl ValueError | v # vs \<Rightarrow> Inr (fold max (map abs vs) \<bar>v\<bar>))"

text \<open>Lines 170--171: \<open>arr = arr / peak\<close>, then \<open>arr *= 2.0\<close>.\<close>

definition normalise :: "real \<Rightarrow> real list \<Rightarrow> real list" where
  "normalise peak arr = map (\<lambda>v. v / peak * 2) arr"

text \<open>The \<open>zi\<close> argument of line 174: \<open>self.zi * arr[0]\<close>.\<close>

definition zi_arg :: "real list \<Rightarrow> real \<Rightarrow> real list" where
  "zi_arg z a0 = map (\<lambda>c. c * a0) z"

text \<open>
  Lines 173--178. Whatever the guarded statement raises (\<open>arr[0]\<close> on an empty array, or the
  filter call) is caught by the bare \<open>except\<close>; \<open>filtered[-1]\<close> in the handler raises
  \<open>IndexError\<close> on an empty output, and nothing catches that.
\<close>

definition bandpass_apply ::
  "dsp \<Rightarrow> real list \<Rightarrow> real list \<Rightarrow> py_error + (real list \<times> real list)" where
  "bandpass_apply lib z arr =
     (case (case arr of [] \<Rightarrow> None | a0 # _ \<Rightarrow> sosfilt_with_zi lib arr (zi_arg z a0)) of
        Some (filtered, zf) \<Rightarrow> Inr (filtered, zf)
      | None \<Rightarrow>
          (let filtered = sosfilt_plain lib arr
           in if filtered = [] then Inl IndexError
              else Inr (filtered, map (\<lambda>c. c * last filtered) (sosfilt_zi lib))))"

text \<open>
  Lines 197--205: the running mean. \<open>pop(0)\<close> drops the oldest entry; the history is not
  empty when the mean is taken, because \<open>freq\<close> itself has just passed the positivity
  filter.
\<close>

definition smooth_frequency :: "real list \<Rightarrow> real \<Rightarrow> real list \<times> real" where
  "smooth_frequency hist freq =
     (if freq > 0 then
        (let h1 = hist @ [freq];
             h2 = filter (\<lambda>f. f > 0) h1;
             h3 = (if length h2 > 5 then tl h2 else h2)
         in (h3, np_mean h3))
      else (hist, 0))"

text \<open>Lines 209--216: the stability counter and the test that guards the display.\<close>

definition confirm_note :: "tuner \<Rightarrow> string \<Rightarrow> tuner \<times> bool" where
  "confirm_note t string =
     (let t' = (if Some string = last_note t
                then t\<lparr>note_counter := note_counter t + 1\<rparr>
                else t\<lparr>note_counter := 1, last_note := Some string\<rparr>)
      in (t', note_counter t' \<ge> note_confirm_threshold))"

text \<open>
  Lines 197--221 as a function of the detected frequency. What is shown (the status line
  and the gauge) is returned as a \<open>reading\<close>: note, smoothed frequency, deviation.
\<close>

definition update_gauge :: "tuner \<Rightarrow> real \<Rightarrow> tuner \<times> (py_error + reading option)" where
  "update_gauge t freq =
     (let (h, freq_smooth) = smooth_frequency (freq_history t) freq;
          t1 = t\<lparr>freq_history := h\<rparr>
      in case freq_to_string freq_smooth of
           Inl e \<Rightarrow> (t1, Inl e)
         | Inr (string, target) \<Rightarrow>
             (let (t2, ok) = confirm_note t1 string
              in if ok
                 then (t2, Inr (Some (string, freq_smooth,
                                      if freq_smooth > 0 then cents_diff freq_smooth target else 0)))
                 else (t2, Inr None)))"

text \<open>
  Lines 196--221. The spectrum plot of lines 181--193 only reads \<open>filtered\<close> and draws; it
  is not modelled.
\<close>

definition analyse :: "tuner \<Rightarrow> real list \<Rightarrow> tuner \<times> (py_error + reading option)" where
  "analyse t filtered =
     (case detect_frequency_autocorr filtered (fs t) of
        Inl e \<Rightarrow> (t, Inl e)
      | Inr freq \<Rightarrow> update_gauge t freq)"

text \<open>
  Lines 162--221 for one block. \<open>np.squeeze\<close> turns the one-channel block into a
  one-dimensional array, the list \<open>block\<close>. The object keeps the assignments made before
  an exception escapes, so the state is returned in every case.
\<close>

definition process_block :: "dsp \<Rightarrow> tuner \<Rightarrow> real list \<Rightarrow> tuner \<times> (py_error + reading option)" where
  "process_block lib t block =
     (case np_max_abs block of
        Inl e \<Rightarrow> (t, Inl e)
      | Inr peak \<Rightarrow>
          if peak < 0.02 then (t, Inr None)
          else
            (case bandpass_apply lib (zi t) (normalise peak block) of
               Inl e \<Rightarrow> (t, Inl e)
             | Inr (filtered, zf) \<Rightarrow> analyse (t\<lparr>zi := zf\<rparr>) filtered))"

text \<open>
  \<open>poll\<close>: the queue is drained and only the newest block is processed. Rescheduling
  through \<open>root.after\<close> is the GUI's business.
\<close>

definition poll :: "dsp \<Rightarrow> tuner \<Rightarrow> tuner \<times> (py_error + reading option)" where
  "poll lib t =
     (case q t of
        [] \<Rightarrow> (t, Inr None)
      | b # bs \<Rightarrow> process_block lib (t\<lparr>q := []\<rparr>) (last (b # bs)))"

subsection \<open>Drivers\<close>

text \<open>One block arrives from the audio callback and is then polled, for each block in turn.\<close>

fun feed :: "dsp \<Rightarrow> tuner \<Rightarrow> real list list \<Rightarrow> tuner \<times> (py_error + reading option) list" where
  "feed lib t [] = (t, [])"
| "feed lib t (b # bs) =
     (let (t1, r) = poll lib (audio_callback t b False);
          (t2, rs) = feed lib t1 bs
      in (t2, r # rs))"

text \<open>The stability counter driven by a list of candidate names.\<close>

fun confirm_all :: "tuner \<Rightarrow> string list \<Rightarrow> bool list" where
  "confirm_all t [] = []"
| "confirm_all t (c # cs) = (let (t', ok) = confirm_note t c in ok # confirm_all t' cs)"

subsection \<open>Stand-ins for the filter library\<close>

text \<open>
  Two concrete instances of the library parameter, for evaluating the tuner on explicit
  blocks. \<open>lib_echo\<close> returns the block unchanged and hands back the state it was given,
  so the state that the tuner passes to the filter can be read off the result.
  \<open>lib_failing\<close> is a library whose stateful call always raises.
\<close>

definition lib_echo :: dsp where
  "lib_echo = \<lparr>sosfilt_zi = [1], sosfilt_with_zi = (\<lambda>x z. Some (x, z)), sosfilt_plain = (\<lambda>x. x)\<rparr>"

definition lib_failing :: dsp where
  "lib_failing = \<lparr>sosfilt_zi = [1], sosfilt_with_zi = (\<lambda>x z. None), sosfilt_plain = (\<lambda>x. x)\<rparr>"

section \<open>Facts about the library functions\<close>

subsection \<open>\<open>np.argmax\<close> and \<open>np.where\<close>\<close>

lemma argmax_from_first_max:
  assumes "length pre = i" and "best < i" and "pre ! best = bv"
    and "\<forall>j<i. pre ! j \<le> bv" and "\<forall>j<best. pre ! j < bv"
  shows "argmax_from best bv i vs < length (pre @ vs)
       \<and> (\<forall>j<length (pre @ vs). (pre @ vs) ! j \<le> (pre @ vs) ! argmax_from best bv i vs)
       \<and> (\<forall>j<argmax_from best bv i vs. (pre @ vs) ! j < (pre @ vs) ! argmax_from best bv i vs)"
  using assms
proof (induction vs arbitrary: pre best bv i)
  case Nil
  then show ?case by auto
next
  case (Cons v vs)
  show ?case
  proof (cases "v > bv")
    case True
    have "argmax_from i v (Suc i) vs < length ((pre @ [v]) @ vs)
       \<and> (\<forall>j<length ((pre @ [v]) @ vs). ((pre @ [v]) @ vs) ! j \<le> ((pre @ [v]) @ vs) ! argmax_from i v (Suc i) vs)
       \<and> (\<forall>j<argmax_from i v (Suc i) vs. ((pre @ [v]) @ vs) ! j < ((pre @ [v]) @ vs) ! argmax_from i v (Suc i) vs)"
    proof (rule Cons.IH)
      show "length (pre @ [v]) = Suc i" using Cons.prems by simp
      show "i < Suc i" by simp
      show "(pre @ [v]) ! i = v" using Cons.prems by (simp add: nth_append)
      show "\<forall>j<Suc i. (pre @ [v]) ! j \<le> v"
        using Cons.prems True by (auto simp: nth_append less_Suc_eq intro: order_trans less_imp_le)
      show "\<forall>j<i. (pre @ [v]) ! j < v"
        using Cons.prems True by (auto simp: nth_append intro: le_less_trans)
    qed
    with True show ?thesis by simp
  next
    case False
    have "argmax_from best bv (Suc i) vs < length ((pre @ [v]) @ vs)
       \<and> (\<forall>j<length ((pre @ [v]) @ vs). ((pre @ [v]) @ vs) ! j \<le> ((pre @ [v]) @ vs) ! argmax_from best bv (Suc i) vs)
       \<and> (\<forall>j<argmax_from best bv (Suc i) vs. ((pre @ [v]) @ vs) ! j < ((pre @ [v]) @ vs) ! argmax_from best bv (Suc i) vs)"
    proof (rule Cons.IH)
      show "length (pre @ [v]) = Suc i" using Cons.prems by simp
      show "best < Suc i" using Cons.prems by simp
      show "(pre @ [v]) ! best = bv" using Cons.prems by (simp add: nth_append)
      show "\<forall>j<Suc i. (pre @ [v]) ! j \<le> bv"
        using Cons.prems False by (auto simp: nth_append less_Suc_eq)
      show "\<forall>j<best. (pre @ [v]) ! j < bv"
        using Cons.prems by (auto simp: nth_append)
    qed
    with False show ?thesis by simp
  qed
qed

lemma np_argmax_first_max:
  assumes "xs \<noteq> []"
  shows "\<exists>p. np_argmax xs = Inr p \<and> p < length xs
          \<and> (\<forall>j<length xs. xs ! j \<le> xs ! p) \<and> (\<forall>j<p. xs ! j < xs ! p)"
proof -
  from assms obtain v vs where xs: "xs = v # vs" by (cases xs) auto
  have "argmax_from 0 v 1 vs < length ([v] @ vs)
       \<and> (\<forall>j<length ([v] @ vs). ([v] @ vs) ! j \<le> ([v] @ vs) ! argmax_from 0 v 1 vs)
       \<and> (\<forall>j<argmax_from 0 v 1 vs. ([v] @ vs) ! j < ([v] @ vs) ! argmax_from 0 v 1 vs)"
    by (rule argmax_from_first_max) auto
  then show ?thesis by (simp add: xs np_argmax_def)
qed

lemma where_pos_Nil_iff: "where_pos d = [] \<longleftrightarrow> (\<forall>i<length d. \<not> d ! i > 0)"
  by (auto simp: where_pos_def filter_empty_conv)

lemma where_pos_Cons:
  assumes "where_pos d = s # rest"
  shows "s < length d \<and> d ! s > 0 \<and> (\<forall>j<s. \<not> d ! j > 0)"
proof -
  have "s \<in> set (where_pos d)" using assms by simp
  then have 1: "s < length d" "d ! s > 0" by (auto simp: where_pos_def)
  have "sorted (where_pos d)" unfolding where_pos_def by (rule sorted_wrt_filter) simp
  then have le: "\<forall>k\<in>set (where_pos d). s \<le> k" using assms by auto
  have "\<forall>j<s. \<not> d ! j > 0"
  proof (intro allI impI)
    fix j assume "j < s"
    show "\<not> d ! j > 0"
    proof
      assume "d ! j > 0"
      with \<open>j < s\<close> 1 have "j \<in> set (where_pos d)" by (auto simp: where_pos_def)
      with le \<open>j < s\<close> show False by auto
    qed
  qed
  with 1 show ?thesis by simp
qed

subsection \<open>Differences and the autocorrelation\<close>

lemma length_np_diff: "length (np_diff c) = length c - 1"
  by (simp add: np_diff_def)

lemma np_diff_nth: "i < length c - 1 \<Longrightarrow> np_diff c ! i = c ! Suc i - c ! i"
  by (simp add: np_diff_def nth_tl)

lemma length_np_correlate_full: "length (np_correlate_full a v) = length a + length v - 1"
  by (simp add: np_correlate_full_def)

lemma length_autocorr: "length (autocorr x) = length x"
  by (simp add: autocorr_def Let_def length_np_correlate_full)

text \<open>
  The kept half of the autocorrelation at lag \<open>k\<close> is the sum of the products of the
  mean-removed samples \<open>k\<close> positions apart.
\<close>

lemma autocorr_nth:
  assumes "k < length x"
  shows "autocorr x ! k =
     sum_list (map2 (*) (drop k (map (\<lambda>v. v - np_mean x) x)) (map (\<lambda>v. v - np_mean x) x))"
proof -
  define xm where "xm = map (\<lambda>v. v - np_mean x) x"
  define n where "n = length x"
  have len: "length xm = n" by (simp add: xm_def n_def)
  have n: "0 < n" "k < n" using assms by (auto simp: n_def)
  have d: "(n + n - 1) div 2 = n - 1" using n by arith
  have idx: "n - 1 + k < n + n - 1" "\<not> n - 1 + k < n - 1" "n - 1 + k - (n - 1) = k"
    using n by arith+
  have "autocorr x ! k = np_correlate_full xm xm ! (n - 1 + k)"
    unfolding autocorr_def Let_def xm_def[symmetric]
    using n by (simp only: length_np_correlate_full len d nth_drop)
  also have "\<dots> = sum_list (map2 (*) (drop k xm) xm)"
    unfolding np_correlate_full_def len
    using idx by (simp only: nth_map length_upt nth_upt diff_zero add_0 if_False)
  finally show ?thesis by (simp only: xm_def)
qed

subsection \<open>The minimum by key and the peak sample\<close>

lemma py_min_from_first_min:
  "\<exists>i\<le>length xs. (b # xs) ! i = py_min_from b xs
      \<and> (\<forall>j\<le>length xs. snd (py_min_from b xs) \<le> snd ((b # xs) ! j))
      \<and> (\<forall>j<i. snd (py_min_from b xs) < snd ((b # xs) ! j))"
proof (induction xs arbitrary: b)
  case Nil
  then show ?case by simp
next
  case (Cons x xs)
  show ?case
  proof (cases "snd x < snd b")
    case True
    from Cons.IH[of x] obtain i where i: "i \<le> length xs" "(x # xs) ! i = py_min_from x xs"
      "\<forall>j\<le>length xs. snd (py_min_from x xs) \<le> snd ((x # xs) ! j)"
      "\<forall>j<i. snd (py_min_from x xs) < snd ((x # xs) ! j)" by blast
    from i(3) have mx: "snd (py_min_from x xs) \<le> snd x" by force
    have a: "\<forall>j\<le>length (x # xs). snd (py_min_from x xs) \<le> snd ((b # x # xs) ! j)"
    proof (intro allI impI)
      fix j assume "j \<le> length (x # xs)"
      then show "snd (py_min_from x xs) \<le> snd ((b # x # xs) ! j)"
        using i(3) mx True by (cases j) auto
    qed
    have c: "\<forall>j<Suc i. snd (py_min_from x xs) < snd ((b # x # xs) ! j)"
    proof (intro allI impI)
      fix j assume "j < Suc i"
      then show "snd (py_min_from x xs) < snd ((b # x # xs) ! j)"
        using i(4) mx True by (cases j) auto
    qed
    show ?thesis
      using True i(1,2) a c by (intro exI[of _ "Suc i"]) simp
  next
    case False
    from Cons.IH[of b] obtain i where i: "i \<le> length xs" "(b # xs) ! i = py_min_from b xs"
      "\<forall>j\<le>length xs. snd (py_min_from b xs) \<le> snd ((b # xs) ! j)"
      "\<forall>j<i. snd (py_min_from b xs) < snd ((b # xs) ! j)" by blast
    from i(3) have mb: "snd (py_min_from b xs) \<le> snd b" by force
    have a: "\<forall>j\<le>length (x # xs). snd (py_min_from b xs) \<le> snd ((b # x # xs) ! j)"
    proof (intro allI impI)
      fix j assume j: "j \<le> length (x # xs)"
      show "snd (py_min_from b xs) \<le> snd ((b # x # xs) ! j)"
      proof (cases j)
        case 0 then show ?thesis using mb by simp
      next
        case (Suc k)
        show ?thesis
        proof (cases k)
          case 0 then show ?thesis using Suc mb False by simp
        next
          case (Suc l)
          with \<open>j = Suc k\<close> j have "Suc l \<le> length xs" by simp
          with i(3) have "snd (py_min_from b xs) \<le> snd ((b # xs) ! Suc l)" by blast
          then show ?thesis using Suc \<open>j = Suc k\<close> by simp
        qed
      qed
    qed
    show ?thesis
    proof (cases i)
      case 0
      then show ?thesis using False i(2) a by (intro exI[of _ 0]) simp
    next
      case (Suc i')
      from i(4) Suc have lb: "snd (py_min_from b xs) < snd b" by force
      have c: "\<forall>j<Suc i. snd (py_min_from b xs) < snd ((b # x # xs) ! j)"
      proof (intro allI impI)
        fix j assume j: "j < Suc i"
        show "snd (py_min_from b xs) < snd ((b # x # xs) ! j)"
        proof (cases j)
          case 0 then show ?thesis using lb by simp
        next
          case (Suc k)
          show ?thesis
          proof (cases k)
            case 0 then show ?thesis using Suc lb False by simp
          next
            case (Suc l)
            with \<open>j = Suc k\<close> j have "Suc l < i" by simp
            with i(4) have "snd (py_min_from b xs) < snd ((b # xs) ! Suc l)" by blast
            then show ?thesis using Suc \<open>j = Suc k\<close> by simp
          qed
        qed
      qed
      show ?thesis
        using False i(1,2) Suc a c by (intro exI[of _ "Suc i"]) simp
    qed
  qed
qed

lemma np_max_abs_Max:
  assumes "block \<noteq> []"
  shows "np_max_abs block = Inr (Max (abs ` set block))"
proof -
  from assms obtain v vs where b: "block = v # vs" by (cases block) auto
  have "fold max (map abs vs) \<bar>v\<bar> = Max (set (\<bar>v\<bar> # map abs vs))"
    by (simp only: Max.set_eq_fold)
  then show ?thesis by (simp add: b np_max_abs_def)
qed

lemma normalise_Cons: "normalise peak (v # vs) = (v / peak * 2) # normalise peak vs"
  by (simp add: normalise_def)

section \<open>The pitch estimator\<close>

text \<open>
  Whenever the estimator returns at all, the lag it divides by is at least 1: the search
  starts at a lag whose successor is strictly larger, so the first maximum lies behind
  it. The branch \<open>peak == 0\<close> of line 88 is therefore never taken.
\<close>

lemma detect_peak_after_start:
  assumes "detect_frequency_autocorr x rate = Inr r"
  shows "\<exists>peak. 0 < peak \<and> peak < length x \<and> r = rate / real peak"
proof -
  let ?c = "autocorr x"
  let ?d = "np_diff ?c"
  from assms have xne: "x \<noteq> []"
    by (auto simp: detect_frequency_autocorr_def split: if_splits)
  from assms xne obtain s rest where wp: "where_pos ?d = s # rest"
    by (cases "where_pos ?d") (auto simp: detect_frequency_autocorr_def Let_def)
  from where_pos_Cons[OF wp] have s: "s < length ?d" "?d ! s > 0" by auto
  then have s1: "Suc s < length ?c" by (simp add: length_np_diff)
  then have "drop s ?c \<noteq> []" by simp
  from np_argmax_first_max[OF this] obtain m where
    m: "np_argmax (drop s ?c) = Inr m" "m < length (drop s ?c)"
       "\<forall>j<length (drop s ?c). drop s ?c ! j \<le> drop s ?c ! m" by blast
  have rise: "?c ! s < ?c ! Suc s"
    using s s1 by (simp add: np_diff_nth length_np_diff)
  have "m \<noteq> 0"
  proof
    assume "m = 0"
    have "1 < length (drop s ?c)" using s1 by simp
    with m(3) \<open>m = 0\<close> have "drop s ?c ! 1 \<le> drop s ?c ! 0" by blast
    with s1 rise show False by simp
  qed
  then have pos: "0 < m + s" by simp
  have "m + s < length x" using m(2) by (simp add: length_autocorr)
  moreover have "r = rate / real (m + s)"
    using assms xne wp m(1) pos by (auto simp: detect_frequency_autocorr_def Let_def split: if_splits)
  ultimately show ?thesis using pos by blast
qed

text \<open>Without a rising step in the autocorrelation, line 86 indexes an empty array.\<close>

lemma detect_no_rise:
  assumes "x \<noteq> []" and "\<forall>i<length (np_diff (autocorr x)). \<not> np_diff (autocorr x) ! i > 0"
  shows "detect_frequency_autocorr x rate = Inl IndexError"
  using assms by (simp add: detect_frequency_autocorr_def Let_def where_pos_Nil_iff[THEN iffD2])

lemma autocorr_zero3: "autocorr [0, 0, 0] = [0, 0, 0]"
  by (simp add: autocorr_def np_mean_def np_correlate_full_def upt_conv_Cons Let_def)

lemma autocorr_square4: "autocorr [2, -2, 2, -2] = [16, -12, 8, -4]"
  by (simp add: autocorr_def np_mean_def np_correlate_full_def upt_conv_Cons Let_def)

lemma detect_square4: "detect_frequency_autocorr [2, -2, 2, -2] 44100 = Inr 22050"
  by (simp add: detect_frequency_autocorr_def autocorr_square4 np_diff_def where_pos_def
      np_argmax_def upt_conv_Cons Let_def)

text \<open>
  Claim C4. A block whose autocorrelation never rises (a silent, all-zero block for
  instance) should make the estimator return "no pitch", encoded as 0, without any
  out-of-range indexing. The code does not get that far: on the all-zero block of three
  samples \<open>np.where(d > 0)[0]\<close> is empty and indexing it raises \<open>IndexError\<close>.
\<close>

theorem detect_silent_block_raises:
  "detect_frequency_autocorr [0, 0, 0] 44100 = Inl IndexError"
  by (simp add: detect_frequency_autocorr_def autocorr_zero3 np_diff_def where_pos_def
      upt_conv_Cons Let_def)

text \<open>
  Claim C5. If the first difference of the mean-removed, non-negative-lag autocorrelation
  is positive at some lag, then with \<open>start\<close> the first such lag and \<open>peak\<close> the first
  index at or after \<open>start\<close> where the autocorrelation is largest, the estimator returns
  the sample rate divided by \<open>peak\<close>, and 0 ("no pitch") exactly in the case \<open>peak = 0\<close>.
\<close>

theorem detect_frequency_autocorr_peak:
  assumes "i < length (np_diff (autocorr x))" and "np_diff (autocorr x) ! i > 0"
  shows "\<exists>start peak.
           start < length (np_diff (autocorr x)) \<and> np_diff (autocorr x) ! start > 0
         \<and> (\<forall>j<start. \<not> np_diff (autocorr x) ! j > 0)
         \<and> start \<le> peak \<and> peak < length (autocorr x)
         \<and> (\<forall>j. start \<le> j \<and> j < length (autocorr x) \<longrightarrow> autocorr x ! j \<le> autocorr x ! peak)
         \<and> (\<forall>j. start \<le> j \<and> j < peak \<longrightarrow> autocorr x ! j < autocorr x ! peak)
         \<and> detect_frequency_autocorr x rate = Inr (if peak = 0 then 0 else rate / real peak)
         \<and> (rate \<noteq> 0 \<longrightarrow> (detect_frequency_autocorr x rate = Inr 0 \<longleftrightarrow> peak = 0))"
proof -
  let ?c = "autocorr x"
  let ?d = "np_diff ?c"
  from assms have "where_pos ?d \<noteq> []" by (auto simp: where_pos_Nil_iff)
  then obtain s rest where wp: "where_pos ?d = s # rest" by (cases "where_pos ?d") auto
  from where_pos_Cons[OF wp] have s: "s < length ?d" "?d ! s > 0" "\<forall>j<s. \<not> ?d ! j > 0" by auto
  from s(1) have slen: "s < length ?c" and xne: "x \<noteq> []"
    by (auto simp: length_np_diff length_autocorr)
  then have "drop s ?c \<noteq> []" by simp
  from np_argmax_first_max[OF this] obtain m where
    m: "np_argmax (drop s ?c) = Inr m" "m < length (drop s ?c)"
       "\<forall>j<length (drop s ?c). drop s ?c ! j \<le> drop s ?c ! m"
       "\<forall>j<m. drop s ?c ! j < drop s ?c ! m" by blast
  let ?p = "m + s"
  have p_lt: "?p < length ?c" using m(2) by simp
  have p_nth: "drop s ?c ! m = ?c ! ?p" using slen by (simp add: add.commute)
  have ge: "\<forall>j. s \<le> j \<and> j < length ?c \<longrightarrow> ?c ! j \<le> ?c ! ?p"
  proof (intro allI impI)
    fix j assume j: "s \<le> j \<and> j < length ?c"
    then have "j - s < length (drop s ?c)" by auto
    with m(3) have "drop s ?c ! (j - s) \<le> drop s ?c ! m" by blast
    with j slen show "?c ! j \<le> ?c ! ?p" by (simp add: p_nth)
  qed
  have gt: "\<forall>j. s \<le> j \<and> j < ?p \<longrightarrow> ?c ! j < ?c ! ?p"
  proof (intro allI impI)
    fix j assume j: "s \<le> j \<and> j < ?p"
    then have "j - s < m" by auto
    with m(4) have "drop s ?c ! (j - s) < drop s ?c ! m" by blast
    with j slen p_lt show "?c ! j < ?c ! ?p" by (simp add: p_nth)
  qed
  have det: "detect_frequency_autocorr x rate = Inr (if ?p = 0 then 0 else rate / real ?p)"
    using xne wp m(1) by (simp add: detect_frequency_autocorr_def Let_def)
  have zero: "rate \<noteq> 0 \<longrightarrow> (detect_frequency_autocorr x rate = Inr 0 \<longleftrightarrow> ?p = 0)"
    unfolding det by auto
  show ?thesis
    using s ge gt det zero p_lt by (intro exI[of _ s] exI[of _ ?p]) simp
qed

theorem detect_frequency_autocorr_peak_witness:
  "1 < length (np_diff (autocorr [2, -2, 2, -2]))
   \<and> np_diff (autocorr [2, -2, 2, -2]) ! 1 > 0
   \<and> (\<exists>peak. peak < length (autocorr [2, -2, 2, -2])
          \<and> detect_frequency_autocorr [2, -2, 2, -2] 44100
               = Inr (if peak = 0 then 0 else 44100 / real peak))"
proof -
  have h1: "1 < length (np_diff (autocorr [2, -2, 2, -2]))"
    by (simp add: autocorr_square4 np_diff_def)
  have h2: "np_diff (autocorr [2, -2, 2, -2]) ! 1 > 0"
    by (simp add: autocorr_square4 np_diff_def)
  from detect_frequency_autocorr_peak[OF h1 h2, of 44100]
  obtain peak where p: "peak < length (autocorr [2, -2, 2, -2])"
    "detect_frequency_autocorr [2, -2, 2, -2] 44100
               = Inr (if peak = 0 then 0 else 44100 / real peak)"
    by (elim exE conjE) (rule that)
  from p have c: "\<exists>peak. peak < length (autocorr [2, -2, 2, -2])
          \<and> detect_frequency_autocorr [2, -2, 2, -2] 44100
               = Inr (if peak = 0 then 0 else 44100 / real peak)"
    by (intro exI[of _ peak] conjI)
  show ?thesis by (intro conjI h1 h2 c)
qed

section \<open>Note resolution\<close>

lemma length_STRINGS: "length STRINGS = 6"
  by (simp add: STRINGS_def)

lemma distinct_STRINGS: "distinct (map fst STRINGS)"
  by (simp add: STRINGS_def)

lemma STRINGS_pos: "i < length STRINGS \<Longrightarrow> 0 < snd (STRINGS ! i)"
  by (auto simp: STRINGS_def less_Suc_eq numeral_eq_Suc)

lemma freq_to_string_nearest:
  "\<exists>i<length STRINGS. freq_to_string f = Inr (STRINGS ! i)
      \<and> (\<forall>j<length STRINGS. \<bar>f - snd (STRINGS ! i)\<bar> \<le> \<bar>f - snd (STRINGS ! j)\<bar>)
      \<and> (\<forall>j<i. \<bar>f - snd (STRINGS ! i)\<bar> < \<bar>f - snd (STRINGS ! j)\<bar>)"
proof -
  define g where "g = (\<lambda>(note :: string, t :: real). (note, \<bar>f - t\<bar>))"
  define diffs where "diffs = map g STRINGS"
  have gs: "\<And>p. fst (g p) = fst p" "\<And>p. snd (g p) = \<bar>f - snd p\<bar>"
    by (auto simp: g_def split: prod.splits)
  have len: "length diffs = length STRINGS" by (simp add: diffs_def)
  then obtain b xs where bx: "diffs = b # xs" by (cases diffs) (auto simp: length_STRINGS)
  from py_min_from_first_min[of xs b] obtain i where i: "i \<le> length xs"
    "(b # xs) ! i = py_min_from b xs"
    "\<forall>j\<le>length xs. snd (py_min_from b xs) \<le> snd ((b # xs) ! j)"
    "\<forall>j<i. snd (py_min_from b xs) < snd ((b # xs) ! j)" by blast
  have il: "i < length STRINGS" using i(1) len bx by simp
  have nth: "\<And>j. j < length STRINGS \<Longrightarrow> diffs ! j = g (STRINGS ! j)" by (simp add: diffs_def)
  have res: "py_min_from b xs = g (STRINGS ! i)" using i(2) nth[OF il] bx by simp
  have "(fst (STRINGS ! i), snd (STRINGS ! i)) \<in> set STRINGS" using il by simp
  then have look: "map_of STRINGS (fst (STRINGS ! i)) = Some (snd (STRINGS ! i))"
    using distinct_STRINGS by (simp only: map_of_is_SomeI)
  have "freq_to_string f = Inr (fst (STRINGS ! i), snd (STRINGS ! i))"
    unfolding freq_to_string_def Let_def g_def[symmetric] diffs_def[symmetric]
    by (simp add: py_min_key_def bx res gs look)
  then have r: "freq_to_string f = Inr (STRINGS ! i)" by simp
  have a: "\<forall>j<length STRINGS. \<bar>f - snd (STRINGS ! i)\<bar> \<le> \<bar>f - snd (STRINGS ! j)\<bar>"
  proof (intro allI impI)
    fix j assume j: "j < length STRINGS"
    then have "j \<le> length xs" using len bx by simp
    with i(3) have "snd (py_min_from b xs) \<le> snd ((b # xs) ! j)" by blast
    then show "\<bar>f - snd (STRINGS ! i)\<bar> \<le> \<bar>f - snd (STRINGS ! j)\<bar>"
      using nth[OF j] bx by (simp add: res gs)
  qed
  have c: "\<forall>j<i. \<bar>f - snd (STRINGS ! i)\<bar> < \<bar>f - snd (STRINGS ! j)\<bar>"
  proof (intro allI impI)
    fix j assume j: "j < i"
    then have jl: "j < length STRINGS" using il by simp
    from i(4) j have "snd (py_min_from b xs) < snd ((b # xs) ! j)" by blast
    then show "\<bar>f - snd (STRINGS ! i)\<bar> < \<bar>f - snd (STRINGS ! j)\<bar>"
      using nth[OF jl] bx by (simp add: res gs)
  qed
  from il r a c show ?thesis by blast
qed

lemma cents_diff_sign:
  assumes "0 < f" and "0 < t"
  shows "(0 < cents_diff f t \<longleftrightarrow> t < f) \<and> (cents_diff f t < 0 \<longleftrightarrow> f < t)"
  using assms by (simp add: cents_diff_def zero_less_mult_iff mult_less_0_iff)

lemma cents_diff_unison: "cents_diff 110 110 = 0"
  by (simp add: cents_diff_def)

lemma cents_diff_octave: "cents_diff 220 110 = 120"
  by (simp add: cents_diff_def)

lemma freq_to_string_A: "freq_to_string 110 = Inr (''A'', 110)"
  by (simp add: freq_to_string_def STRINGS_def py_min_key_def)


lemma freq_to_string_22050: "freq_to_string 22050 = Inr (''High E'', 329.63)"
  by (simp add: freq_to_string_def STRINGS_def py_min_key_def)

text \<open>
  Claim C8. For a strictly positive frequency the resolver returns the entry of the
  table of six strings whose target is nearest in absolute linear distance, the earliest
  entry winning a tie; the deviation is \<open>1200 * log2(f / target) / 10\<close>, positive when the
  frequency is above the target and negative when below. 110 Hz resolves to "A" with
  deviation 0, and 220 Hz against a target of 110 Hz deviates by 120.
\<close>

theorem resolve_nearest_note:
  assumes "0 < f"
  shows "(\<exists>i<length STRINGS. freq_to_string f = Inr (STRINGS ! i)
            \<and> (\<forall>j<length STRINGS. \<bar>f - snd (STRINGS ! i)\<bar> \<le> \<bar>f - snd (STRINGS ! j)\<bar>)
            \<and> (\<forall>j<i. \<bar>f - snd (STRINGS ! i)\<bar> < \<bar>f - snd (STRINGS ! j)\<bar>)
            \<and> cents_diff f (snd (STRINGS ! i)) = (1200 * log 2 (f / snd (STRINGS ! i))) / 10
            \<and> (0 < cents_diff f (snd (STRINGS ! i)) \<longleftrightarrow> snd (STRINGS ! i) < f)
            \<and> (cents_diff f (snd (STRINGS ! i)) < 0 \<longleftrightarrow> f < snd (STRINGS ! i)))
       \<and> freq_to_string 110 = Inr (''A'', 110)
       \<and> cents_diff 110 110 = 0
       \<and> cents_diff 220 110 = 120"
proof -
  from freq_to_string_nearest[of f] obtain i where i: "i < length STRINGS"
    "freq_to_string f = Inr (STRINGS ! i)"
    "\<forall>j<length STRINGS. \<bar>f - snd (STRINGS ! i)\<bar> \<le> \<bar>f - snd (STRINGS ! j)\<bar>"
    "\<forall>j<i. \<bar>f - snd (STRINGS ! i)\<bar> < \<bar>f - snd (STRINGS ! j)\<bar>" by blast
  have d: "cents_diff f (snd (STRINGS ! i)) = (1200 * log 2 (f / snd (STRINGS ! i))) / 10"
    by (simp only: cents_diff_def)
  note s = cents_diff_sign[OF assms STRINGS_pos[OF i(1)]]
  from i d s have "\<exists>i<length STRINGS. freq_to_string f = Inr (STRINGS ! i)
            \<and> (\<forall>j<length STRINGS. \<bar>f - snd (STRINGS ! i)\<bar> \<le> \<bar>f - snd (STRINGS ! j)\<bar>)
            \<and> (\<forall>j<i. \<bar>f - snd (STRINGS ! i)\<bar> < \<bar>f - snd (STRINGS ! j)\<bar>)
            \<and> cents_diff f (snd (STRINGS ! i)) = (1200 * log 2 (f / snd (STRINGS ! i))) / 10
            \<and> (0 < cents_diff f (snd (STRINGS ! i)) \<longleftrightarrow> snd (STRINGS ! i) < f)
            \<and> (cents_diff f (snd (STRINGS ! i)) < 0 \<longleftrightarrow> f < snd (STRINGS ! i))"
    by blast
  then show ?thesis
    by (intro conjI freq_to_string_A cents_diff_unison cents_diff_octave)
qed

theorem resolve_nearest_note_witness:
  "(0::real) < 115
   \<and> (\<exists>i<length STRINGS. freq_to_string 115 = Inr (STRINGS ! i)
         \<and> (\<forall>j<length STRINGS. \<bar>115 - snd (STRINGS ! i)\<bar> \<le> \<bar>115 - snd (STRINGS ! j)\<bar>)
         \<and> (0 < cents_diff 115 (snd (STRINGS ! i)) \<longleftrightarrow> snd (STRINGS ! i) < 115))
   \<and> freq_to_string 115 = Inr (''A'', 110)"
proof -
  have h: "(0::real) < 115" by simp
  from resolve_nearest_note[OF h]
  have c: "\<exists>i<length STRINGS. freq_to_string 115 = Inr (STRINGS ! i)
         \<and> (\<forall>j<length STRINGS. \<bar>115 - snd (STRINGS ! i)\<bar> \<le> \<bar>115 - snd (STRINGS ! j)\<bar>)
         \<and> (0 < cents_diff 115 (snd (STRINGS ! i)) \<longleftrightarrow> snd (STRINGS ! i) < 115)"
    by blast
  have e: "freq_to_string 115 = Inr (''A'', 110)"
    by (simp add: freq_to_string_def STRINGS_def py_min_key_def)
  show ?thesis by (intro conjI h c e)
qed

section \<open>The running mean\<close>

text \<open>
  Claim C3, as it stands: with no detected pitch the history is left alone and the mean of
  the history is returned. The history is indeed left alone, but the value returned is
  0 and not the mean: with the history \<open>[100]\<close> the mean is 100.
\<close>

theorem smooth_frequency_no_pitch_not_mean:
  "snd (smooth_frequency [100] 0) \<noteq> np_mean [100]"
  by (simp add: smooth_frequency_def np_mean_def)

text \<open>
  Claim C3, amended. When the detected frequency is not positive ("no pitch", encoded as
  0), the history is left unchanged and the smoothed frequency is 0, whatever the history
  holds.
\<close>

theorem smooth_frequency_no_pitch:
  assumes "\<not> freq > 0"
  shows "smooth_frequency hist freq = (hist, 0)"
  using assms by (simp add: smooth_frequency_def)

theorem smooth_frequency_no_pitch_witness:
  "\<not> (0::real) > 0 \<and> smooth_frequency [100] 0 = ([100], 0)"
  using smooth_frequency_no_pitch[of 0 "[100]"] by simp

section \<open>The stability counter\<close>

text \<open>
  Claim C6. A candidate equal to the tracked one increments the count; any other
  candidate replaces the tracked one and sets the count to 1. The answer is true exactly
  when the count has reached 3, and once true it stays true while the same candidate
  keeps arriving. Fed "A", "A", "B", "B", "B", a fresh counter answers false, false,
  false, false, true.
\<close>

theorem confirm_note_counts:
  "fst (confirm_note t c) =
      (if last_note t = Some c then t\<lparr>note_counter := note_counter t + 1\<rparr>
       else t\<lparr>note_counter := 1, last_note := Some c\<rparr>)
   \<and> (snd (confirm_note t c) \<longleftrightarrow> 3 \<le> note_counter (fst (confirm_note t c)))
   \<and> (snd (confirm_note t c) \<longrightarrow> snd (confirm_note (fst (confirm_note t c)) c))
   \<and> confirm_all (init lib rate) [''A'', ''A'', ''B'', ''B'', ''B'']
        = [False, False, False, False, True]"
  by (auto simp: confirm_note_def Let_def note_confirm_threshold_def init_def)

theorem confirm_note_counts_witness:
  "snd (confirm_note (init lib_echo 44100\<lparr>last_note := Some ''A'', note_counter := 2\<rparr>) ''A'')
   \<and> snd (confirm_note (fst (confirm_note (init lib_echo 44100\<lparr>last_note := Some ''A'', note_counter := 2\<rparr>) ''A'')) ''A'')"
proof -
  let ?t = "init lib_echo 44100\<lparr>last_note := Some ''A'', note_counter := 2\<rparr>"
  have h: "snd (confirm_note ?t ''A'')"
    by (simp add: confirm_note_def Let_def note_confirm_threshold_def init_def)
  from confirm_note_counts[of ?t "''A''" lib_echo 44100] h show ?thesis by blast
qed

section \<open>Processing one block\<close>

lemma process_block_loud:
  assumes "block \<noteq> []" and "\<not> Max (abs ` set block) < 0.02"
  shows "process_block lib t block =
      (case bandpass_apply lib (zi t) (normalise (Max (abs ` set block)) block) of
         Inl e \<Rightarrow> (t, Inl e)
       | Inr (filtered, zf) \<Rightarrow> analyse (t\<lparr>zi := zf\<rparr>) filtered)"
  using assms by (simp add: process_block_def np_max_abs_Max)

lemma zi_analyse: "zi (fst (analyse t filtered)) = zi t"
  by (auto simp: analyse_def update_gauge_def confirm_note_def Let_def
      split: sum.splits prod.splits if_splits)

lemma zi_lib_echo: "sosfilt_zi lib_echo = [1]"
  by (simp add: lib_echo_def)

text \<open>
  With the echoing stand-in, the block \<open>[1, -1, 1, -1]\<close> at 44100 Hz is normalised to
  \<open>[2, -2, 2, -2]\<close> and detected at 22050 Hz, which resolves to "High E".
\<close>

lemma poll_square4:
  "poll lib_echo \<lparr>fs = 44100, q = [[1, -1, 1, -1]], running = r, last_note = nm,
                  note_counter = n, zi = z, freq_history = h\<rparr>
     = update_gauge \<lparr>fs = 44100, q = [], running = r, last_note = nm,
                     note_counter = n, zi = zi_arg z 2, freq_history = h\<rparr> 22050"
  by (simp add: poll_def process_block_def np_max_abs_def normalise_def bandpass_apply_def
      lib_echo_def analyse_def detect_square4)

lemma gauge_square4:
  assumes "\<forall>f\<in>set h. f = 22050" and "length h < 5"
  shows "update_gauge \<lparr>fs = 44100, q = [], running = r, last_note = nm,
                     note_counter = n, zi = z, freq_history = h\<rparr> 22050
     = (if nm = Some ''High E''
        then (\<lparr>fs = 44100, q = [], running = r, last_note = nm,
                     note_counter = n + 1, zi = z, freq_history = h @ [22050]\<rparr>,
              Inr (if 3 \<le> n + 1 then Some (''High E'', 22050, cents_diff 22050 329.63) else None))
        else (\<lparr>fs = 44100, q = [], running = r, last_note = Some ''High E'',
                     note_counter = 1, zi = z, freq_history = h @ [22050]\<rparr>, Inr None))"
proof -
  have f: "filter (\<lambda>f. 0 < f) h = h" using assms(1) by (induction h) auto
  have "sum_list h = 22050 * real (length h)" using assms(1) by (induction h) (auto simp: algebra_simps)
  then have m: "np_mean (h @ [22050]) = 22050"
    by (simp add: np_mean_def field_simps)
  show ?thesis
    using assms(2)
    by (simp add: update_gauge_def smooth_frequency_def f m freq_to_string_22050
      confirm_note_def note_confirm_threshold_def Let_def)
qed

text \<open>
  Claim C7. A queued block whose largest absolute sample is below 0.02 is dropped: the
  filter state, the frequency history, the tracked note and its count are exactly what
  they were, and nothing is shown.
\<close>

theorem silent_block_frame:
  assumes "q t \<noteq> []" and "last (q t) \<noteq> []" and "Max (abs ` set (last (q t))) < 0.02"
  shows "poll lib t = (t\<lparr>q := []\<rparr>, Inr None)
       \<and> zi (fst (poll lib t)) = zi t
       \<and> freq_history (fst (poll lib t)) = freq_history t
       \<and> last_note (fst (poll lib t)) = last_note t
       \<and> note_counter (fst (poll lib t)) = note_counter t"
proof -
  from assms(1) obtain b bs where qq: "q t = b # bs" by (cases "q t") auto
  have "process_block lib (t\<lparr>q := []\<rparr>) (last (q t)) = (t\<lparr>q := []\<rparr>, Inr None)"
    using assms(2,3) by (simp add: process_block_def np_max_abs_Max)
  then have "poll lib t = (t\<lparr>q := []\<rparr>, Inr None)"
    by (simp add: poll_def qq)
  then show ?thesis by simp
qed

theorem silent_block_frame_witness:
  "q (audio_callback (init lib_echo 44100) [0.01, -0.005] False) \<noteq> []
   \<and> last (q (audio_callback (init lib_echo 44100) [0.01, -0.005] False)) \<noteq> []
   \<and> Max (abs ` set (last (q (audio_callback (init lib_echo 44100) [0.01, -0.005] False)))) < 0.02
   \<and> poll lib_echo (audio_callback (init lib_echo 44100) [0.01, -0.005] False)
       = (init lib_echo 44100, Inr None)"
proof -
  let ?t = "audio_callback (init lib_echo 44100) [0.01, -0.005] False"
  have h1: "q ?t \<noteq> []" by (simp add: audio_callback_def init_def)
  have h2: "last (q ?t) \<noteq> []" by (simp add: audio_callback_def init_def)
  have h3: "Max (abs ` set (last (q ?t))) < 0.02" by (simp add: audio_callback_def init_def)
  have "?t\<lparr>q := []\<rparr> = init lib_echo 44100" by (simp add: audio_callback_def init_def)
  with silent_block_frame[OF h1 h2 h3, of lib_echo] h1 h2 h3 show ?thesis by simp
qed

text \<open>
  Claim C2, as it stands: after the first call of a session the state handed to the
  filter is the state carried over from the previous call, unscaled. With the echoing
  stand-in the state carried out of the first block \<open>[1, -1, 1, -1]\<close> is \<open>[2]\<close>; the second
  call on the same block hands the filter \<open>[4]\<close>, the carried state times the first
  normalised sample.
\<close>

theorem second_call_state_rescaled:
  "zi (fst (feed lib_echo (start True (init lib_echo 44100)) [[1, -1, 1, -1]])) = [2]
   \<and> bandpass_apply lib_echo [2] (normalise 1 [1, -1, 1, -1]) = Inr ([2, -2, 2, -2], [4])"
proof -
  have a: "zi (fst (feed lib_echo (start True (init lib_echo 44100)) [[1, -1, 1, -1]])) = [2]"
    by (simp add: init_def start_def audio_callback_def poll_square4 gauge_square4
      zi_arg_def zi_lib_echo)
  have b: "bandpass_apply lib_echo [2] (normalise 1 [1, -1, 1, -1]) = Inr ([2, -2, 2, -2], [4])"
    by (simp add: normalise_def bandpass_apply_def zi_arg_def lib_echo_def)
  show ?thesis by (intro conjI a b)
qed

text \<open>
  Claim C2, amended. On every call, the first of a session and every later one alike, the
  state handed to the filter is the stored state multiplied by the first sample of the
  normalised block; the state the filter returns is stored for the next call, and a
  new tuner stores the steady-state initial condition.
\<close>

theorem filter_state_scaled_every_call:
  assumes "block \<noteq> []" and "\<not> Max (abs ` set block) < 0.02"
    and "arr = normalise (Max (abs ` set block)) block"
    and "sosfilt_with_zi lib arr (map (\<lambda>c. c * hd arr) (zi t)) = Some (filtered, zf)"
  shows "process_block lib t block = analyse (t\<lparr>zi := zf\<rparr>) filtered
       \<and> zi (fst (process_block lib t block)) = zf
       \<and> zi (init lib rate) = sosfilt_zi lib"
proof -
  from assms(1,3) obtain a0 rest where arr: "arr = a0 # rest"
    by (cases block) (auto simp: normalise_def)
  have "bandpass_apply lib (zi t) arr = Inr (filtered, zf)"
    using assms(4) by (simp add: bandpass_apply_def arr zi_arg_def)
  then have "process_block lib t block = analyse (t\<lparr>zi := zf\<rparr>) filtered"
    using process_block_loud[OF assms(1,2)] assms(3) by simp
  then show ?thesis by (simp add: zi_analyse init_def)
qed

theorem filter_state_scaled_every_call_witness:
  "[1, -1, 1, -1] \<noteq> ([] :: real list)
   \<and> \<not> Max (abs ` set [1, -1, 1, -1 :: real]) < 0.02
   \<and> [2, -2, 2, -2] = normalise (Max (abs ` set [1, -1, 1, -1])) [1, -1, 1, -1]
   \<and> sosfilt_with_zi lib_echo [2, -2, 2, -2]
        (map (\<lambda>c. c * hd [2, -2, 2, -2]) (zi (init lib_echo 44100\<lparr>zi := [2]\<rparr>)))
        = Some ([2, -2, 2, -2], [4])
   \<and> zi (fst (process_block lib_echo (init lib_echo 44100\<lparr>zi := [2]\<rparr>) [1, -1, 1, -1])) = [4]"
proof -
  let ?t = "init lib_echo 44100\<lparr>zi := [2]\<rparr>"
  have h1: "[1, -1, 1, -1] \<noteq> ([] :: real list)" by simp
  have h2: "\<not> Max (abs ` set [1, -1, 1, -1 :: real]) < 0.02" by simp
  have h3: "[2, -2, 2, -2] = normalise (Max (abs ` set [1, -1, 1, -1])) [1, -1, 1, -1]"
    by (simp add: normalise_def)
  have h4: "sosfilt_with_zi lib_echo [2, -2, 2, -2] (map (\<lambda>c. c * hd [2, -2, 2, -2]) (zi ?t))
        = Some ([2, -2, 2, -2], [4])"
    by (simp add: lib_echo_def init_def)
  from filter_state_scaled_every_call[OF h1 h2 h3 h4]
  have c: "zi (fst (process_block lib_echo ?t [1, -1, 1, -1])) = [4]" by blast
  show ?thesis by (intro conjI h1 h2 h3 h4 c)
qed

text \<open>
  Claim C9. When the stateful filter call fails, the block is filtered statelessly
  instead, the stored state becomes the steady-state initial condition scaled by the last
  filtered sample, and processing goes on with the pitch estimate; the failure does not
  reach the caller. (The stateless output is taken to be non-empty, as a filter output of
  the same length as a non-empty block is.)
\<close>

theorem filter_failure_fallback:
  assumes "block \<noteq> []" and "\<not> Max (abs ` set block) < 0.02"
    and "arr = normalise (Max (abs ` set block)) block"
    and "sosfilt_with_zi lib arr (map (\<lambda>c. c * hd arr) (zi t)) = None"
    and "sosfilt_plain lib arr \<noteq> []"
  shows "bandpass_apply lib (zi t) arr =
           Inr (sosfilt_plain lib arr,
                map (\<lambda>c. c * last (sosfilt_plain lib arr)) (sosfilt_zi lib))
       \<and> process_block lib t block =
           analyse (t\<lparr>zi := map (\<lambda>c. c * last (sosfilt_plain lib arr)) (sosfilt_zi lib)\<rparr>)
                   (sosfilt_plain lib arr)"
proof -
  from assms(1,3) obtain a0 rest where arr: "arr = a0 # rest"
    by (cases block) (auto simp: normalise_def)
  have b: "bandpass_apply lib (zi t) arr =
           Inr (sosfilt_plain lib arr,
                map (\<lambda>c. c * last (sosfilt_plain lib arr)) (sosfilt_zi lib))"
    using assms(4,5) by (simp add: bandpass_apply_def arr zi_arg_def Let_def)
  then show ?thesis
    using process_block_loud[OF assms(1,2)] assms(3) by simp
qed

theorem filter_failure_fallback_witness:
  "[1, -1, 1, -1] \<noteq> ([] :: real list)
   \<and> \<not> Max (abs ` set [1, -1, 1, -1 :: real]) < 0.02
   \<and> [2, -2, 2, -2] = normalise (Max (abs ` set [1, -1, 1, -1])) [1, -1, 1, -1]
   \<and> sosfilt_with_zi lib_failing [2, -2, 2, -2]
        (map (\<lambda>c. c * hd [2, -2, 2, -2]) (zi (init lib_failing 44100))) = None
   \<and> sosfilt_plain lib_failing [2, -2, 2, -2] \<noteq> []
   \<and> bandpass_apply lib_failing (zi (init lib_failing 44100)) [2, -2, 2, -2]
        = Inr ([2, -2, 2, -2], [-2])
   \<and> process_block lib_failing (init lib_failing 44100) [1, -1, 1, -1]
        = analyse (init lib_failing 44100\<lparr>zi := [-2]\<rparr>) [2, -2, 2, -2]"
proof -
  let ?t = "init lib_failing 44100"
  have h1: "[1, -1, 1, -1] \<noteq> ([] :: real list)" by simp
  have h2: "\<not> Max (abs ` set [1, -1, 1, -1 :: real]) < 0.02" by simp
  have h3: "[2, -2, 2, -2] = normalise (Max (abs ` set [1, -1, 1, -1])) [1, -1, 1, -1]"
    by (simp add: normalise_def)
  have h4: "sosfilt_with_zi lib_failing [2, -2, 2, -2]
        (map (\<lambda>c. c * hd [2, -2, 2, -2]) (zi ?t)) = None"
    by (simp add: lib_failing_def)
  have h5: "sosfilt_plain lib_failing [2, -2, 2, -2] \<noteq> []"
    by (simp add: lib_failing_def)
  have e: "sosfilt_plain lib_failing [2, -2, 2, -2] = [2, -2, 2, -2]"
     "sosfilt_zi lib_failing = [1]"
    by (simp_all add: lib_failing_def)
  note r = filter_failure_fallback[OF h1 h2 h3 h4 h5, unfolded e]
  have c1: "bandpass_apply lib_failing (zi ?t) [2, -2, 2, -2] = Inr ([2, -2, 2, -2], [-2])"
    using r by simp
  have c2: "process_block lib_failing ?t [1, -1, 1, -1]
        = analyse (?t\<lparr>zi := [-2]\<rparr>) [2, -2, 2, -2]"
    using r by simp
  show ?thesis by (intro conjI h1 h2 h3 h4 h5 c1 c2)
qed




section \<open>Stopping and restarting\<close>

text \<open>\<open>stop\<close> and \<open>start\<close> leave the tracked note and its count as they are.\<close>

lemma restart_state:
  "last_note (start ok (stop lib t)) = last_note t
   \<and> note_counter (start ok (stop lib t)) = note_counter t"
  by (simp add: start_def stop_def)

lemma fresh_two_blocks:
  "feed lib_echo (start True (init lib_echo 44100)) [[1, -1, 1, -1], [1, -1, 1, -1]]
     = (\<lparr>fs = 44100, q = [], running = True, last_note = Some ''High E'',
         note_counter = 2, zi = [4], freq_history = [22050, 22050]\<rparr>, [Inr None, Inr None])"
  by (simp add: init_def start_def audio_callback_def poll_square4 gauge_square4
      zi_arg_def zi_lib_echo)

text \<open>
  Claim C1. A tuner that is stopped and started again should answer every later block
  sequence exactly as a new tuner does. It does not: after two blocks that resolve to
  "High E", a stop and a start, the next such block completes a run of three and a
  reading is shown, while a new tuner shows nothing for its first block.
\<close>

theorem restart_keeps_note_counter:
  "snd (feed lib_echo
          (start True (stop lib_echo (fst (feed lib_echo (start True (init lib_echo 44100))
                                              [[1, -1, 1, -1], [1, -1, 1, -1]]))))
          [[1, -1, 1, -1]])
     = [Inr (Some (''High E'', 22050, cents_diff 22050 329.63))]
   \<and> snd (feed lib_echo (start True (init lib_echo 44100)) [[1, -1, 1, -1]]) = [Inr None]"
  by (simp add: fresh_two_blocks init_def start_def stop_def audio_callback_def poll_square4
      gauge_square4 zi_arg_def zi_lib_echo)

end
